theory Spec2Isabelle
  imports Main "HOL-Library.Multiset" "HOL-Library.Char_ord" "HOL-Library.List_Lexorder"
begin

section \<open>The quiz engine of src/lib/quiz-engine.js\<close>

text \<open>
  The engine is embedded with an explicit store. Arrays of country records are JavaScript
  objects with identity: \<open>shuffle\<close> permutes its argument in place, while the spread
  \<open>[...a]\<close>, \<open>filter\<close> and \<open>slice\<close> build a new array. The store maps an address to the
  current contents of the array living there; allocation hands out \<open>next_addr\<close>. Country
  records and Question objects are never written to after they are built, so they are
  plain values (a Question keeps the address of its options array).

  \<open>Math.random\<close> is the stream \<open>rnd\<close>, read at position \<open>pos\<close>. The source draws
  \<open>Math.floor(Math.random() * (i + 1))\<close>, an index in \<open>{0..i}\<close>; the model takes the next
  natural number of the stream modulo \<open>i + 1\<close>, so every stream gives draws in range and
  every index in range is drawn by some stream. All results hold for every stream.

  Strings are lists of characters compared by character code, which is the order the
  default \<open>Array.prototype.sort\<close> uses on strings.
\<close>

subsection \<open>Data\<close>

record country =
  code :: string
  name :: string
  continent :: string

type_synonym addr = nat

record store =
  arrays :: "addr \<Rightarrow> country list"
  next_addr :: addr
  rnd :: "nat \<Rightarrow> nat"
  pos :: nat

text \<open>\<open>const QUESTIONS_PER_ROUND = 10; const OPTIONS_COUNT = 4;\<close>\<close>

definition QUESTIONS_PER_ROUND :: nat where
  "QUESTIONS_PER_ROUND = 10"

definition OPTIONS_COUNT :: nat where
  "OPTIONS_COUNT = 4"

text \<open>
  The exceptions of the engine: the \<open>Error\<close> thrown by \<open>start\<close>, carrying the two values
  interpolated into its message (the pool length and the continent filter), and the
  \<open>TypeError\<close> the runtime raises when a method is called on \<open>undefined\<close>.
\<close>

datatype exn = Error nat "string option" | TypeError

subsection \<open>Array primitives on the store\<close>

text \<open>A new array object: the array literal, and the result of spread, filter and slice.\<close>

definition alloc :: "country list \<Rightarrow> store \<Rightarrow> addr \<times> store" where
  "alloc xs s =
     (next_addr s,
      s\<lparr>arrays := (arrays s)(next_addr s := xs), next_addr := Suc (next_addr s)\<rparr>)"

text \<open>\<open>[...a]\<close>\<close>

definition spread :: "addr \<Rightarrow> store \<Rightarrow> addr \<times> store" where
  "spread a s = alloc (arrays s a) s"

text \<open>\<open>a.filter(p)\<close>\<close>

definition filter_array :: "(country \<Rightarrow> bool) \<Rightarrow> addr \<Rightarrow> store \<Rightarrow> addr \<times> store" where
  "filter_array p a s = alloc (filter p (arrays s a)) s"

text \<open>
  The elements \<open>Array.prototype.slice(start, end)\<close> selects: a negative bound counts from
  the end of the array, and both bounds are clamped to \<open>0..length\<close>.
\<close>

definition slice_elems :: "'a list \<Rightarrow> int \<Rightarrow> int \<Rightarrow> 'a list" where
  "slice_elems xs start end =
     (let len = int (length xs);
          k = (if start < 0 then max (len + start) 0 else min start len);
          final = (if end < 0 then max (len + end) 0 else min end len)
      in take (nat (final - k)) (drop (nat k) xs))"

text \<open>\<open>a.slice(start, end)\<close>\<close>

definition slice :: "addr \<Rightarrow> int \<Rightarrow> int \<Rightarrow> store \<Rightarrow> addr \<times> store" where
  "slice a start end s = alloc (slice_elems (arrays s a) start end) s"

text \<open>\<open>Math.floor(Math.random() * n)\<close>\<close>

definition random_below :: "nat \<Rightarrow> store \<Rightarrow> nat \<times> store" where
  "random_below n s = (rnd s (pos s) mod n, s\<lparr>pos := Suc (pos s)\<rparr>)"

subsection \<open>shuffle\<close>

text \<open>
  \<^verbatim>\<open>
  function shuffle(array) {
    for (let i = array.length - 1; i > 0; i--) {
      const j = Math.floor(Math.random() * (i + 1));
      [array[i], array[j]] = [array[j], array[i]];
    }
    return array;
  }
  \<close>
  The loop counter is the recursion argument: \<open>shuffle_loop array i\<close> runs the iterations
  \<open>i, i - 1, ..., 1\<close> on the array at address \<open>array\<close>. For the empty array the source
  starts at \<open>i = -1\<close> and never enters the loop; here \<open>0 - 1 = 0\<close> on \<open>nat\<close>, the same.
\<close>

fun shuffle_loop :: "addr \<Rightarrow> nat \<Rightarrow> store \<Rightarrow> store" where
  "shuffle_loop array 0 s = s"
| "shuffle_loop array (Suc n) s =
     (let i = Suc n;
          (j, s1) = random_below (i + 1) s;
          xs = arrays s1 array
      in shuffle_loop array n
           (s1\<lparr>arrays := (arrays s1)(array := xs[i := xs ! j, j := xs ! i])\<rparr>))"

definition shuffle :: "addr \<Rightarrow> store \<Rightarrow> addr \<times> store" where
  "shuffle array s = (array, shuffle_loop array (length (arrays s array) - 1) s)"

subsection \<open>Question\<close>

record question =
  country :: country
  options :: addr
  correctCode :: string

text \<open>\<open>constructor(country, options)\<close>\<close>

definition new_Question :: "country \<Rightarrow> addr \<Rightarrow> question" where
  "new_Question c opts = \<lparr>country = c, options = opts, correctCode = code c\<rparr>"

text \<open>\<open>isCorrect(selectedCode) { return selectedCode === this.correctCode; }\<close>\<close>

definition isCorrect :: "question \<Rightarrow> string \<Rightarrow> bool" where
  "isCorrect q selectedCode \<longleftrightarrow> selectedCode = correctCode q"

subsection \<open>QuestionGenerator\<close>

text \<open>
  The callback of \<open>selected.map\<close>, for one country:
  \<^verbatim>\<open>
      const distractors = shuffle(
        pool.filter((c) => c.code !== country.code)
      ).slice(0, OPTIONS_COUNT - 1);
      const options = shuffle([country, ...distractors]);
      return new Question(country, options);
  \<close>
\<close>

definition make_question :: "addr \<Rightarrow> country \<Rightarrow> store \<Rightarrow> question \<times> store" where
  "make_question pool c s =
     (let (filtered, s1) = filter_array (\<lambda>x. code x \<noteq> code c) pool s;
          (shuffled, s2) = shuffle filtered s1;
          (distractors, s3) = slice shuffled 0 (int OPTIONS_COUNT - 1) s2;
          (literal, s4) = alloc (c # arrays s3 distractors) s3;
          (opts, s5) = shuffle literal s4
      in (new_Question c opts, s5))"

text \<open>
  \<open>selected.map(callback)\<close>: the callback runs on the elements in index order, each call
  on the store the previous one left.
\<close>

fun map_questions :: "addr \<Rightarrow> country list \<Rightarrow> store \<Rightarrow> question list \<times> store" where
  "map_questions pool [] s = ([], s)"
| "map_questions pool (c # cs) s =
     (let (q, s1) = make_question pool c s;
          (qs, s2) = map_questions pool cs s1
      in (q # qs, s2))"

text \<open>
  \<^verbatim>\<open>
  static generate(pool, count = QUESTIONS_PER_ROUND) {
    const shuffled = shuffle([...pool]);
    const selected = shuffled.slice(0, count);
    return selected.map((country) => { ... });
  }
  \<close>
  The parameter \<open>count\<close> (here \<open>cnt\<close>) is a number of questions, a natural number.
\<close>

definition generate :: "addr \<Rightarrow> nat \<Rightarrow> store \<Rightarrow> question list \<times> store" where
  "generate pool cnt s =
     (let (copy, s1) = spread pool s;
          (shuffled, s2) = shuffle copy s1;
          (selected, s3) = slice shuffled 0 (int cnt) s2
      in map_questions pool (arrays s3 selected) s3)"

subsection \<open>QuizGame\<close>

record quiz_game =
  allCountries :: addr
  questions :: "question list"
  currentIndex :: nat
  score :: nat
  answered :: bool

text \<open>\<open>constructor(allCountries)\<close>\<close>

definition new_QuizGame :: "addr \<Rightarrow> quiz_game" where
  "new_QuizGame a =
     \<lparr>allCountries = a, questions = [], currentIndex = 0, score = 0, answered = False\<rparr>"

text \<open>
  The test \<open>continent && continent !== "all"\<close> of \<open>start\<close>. The parameter is a string or
  \<open>null\<close> (the default); \<open>null\<close> and the empty string are falsy.
\<close>

definition filters_by_continent :: "string option \<Rightarrow> bool" where
  "filters_by_continent flt \<longleftrightarrow>
     (case flt of None \<Rightarrow> False | Some c \<Rightarrow> c \<noteq> [] \<and> c \<noteq> ''all'')"

text \<open>
  \<^verbatim>\<open>
  start(continent = null) {
    const pool =
      continent && continent !== "all"
        ? this.allCountries.filter((c) => c.continent === continent)
        : [...this.allCountries];
    if (pool.length < OPTIONS_COUNT) {
      throw new Error(...);
    }
    this.questions = QuestionGenerator.generate(pool);
    this.currentIndex = 0;
    this.score = 0;
    this.answered = false;
  }
  \<close>
  The parameter \<open>continent\<close> is \<open>flt\<close> here (\<open>continent\<close> is the field of a country), and
  \<open>start_pool\<close> is the statement \<open>const pool = ...\<close>. The result of \<open>start\<close> is the outcome
  (the exception thrown, or normal completion), the game object and the store as the call
  leaves them.
\<close>

definition start_pool :: "string option \<Rightarrow> quiz_game \<Rightarrow> store \<Rightarrow> addr \<times> store" where
  "start_pool flt g s =
     (if filters_by_continent flt
      then filter_array (\<lambda>c. continent c = the flt) (allCountries g) s
      else spread (allCountries g) s)"

definition start ::
  "string option \<Rightarrow> quiz_game \<Rightarrow> store \<Rightarrow> (exn + unit) \<times> quiz_game \<times> store" where
  "start flt g s =
     (let (pool, s1) = start_pool flt g s
      in if length (arrays s1 pool) < OPTIONS_COUNT
         then (Inl (Error (length (arrays s1 pool)) flt), g, s1)
         else (let (qs, s2) = generate pool QUESTIONS_PER_ROUND s1
               in (Inr (),
                   g\<lparr>questions := qs, currentIndex := 0, score := 0, answered := False\<rparr>,
                   s2)))"

text \<open>\<open>get currentQuestion()\<close>, with \<open>None\<close> for \<open>null\<close>\<close>

definition currentQuestion :: "quiz_game \<Rightarrow> question option" where
  "currentQuestion g =
     (if currentIndex g \<ge> length (questions g) then None
      else Some (questions g ! currentIndex g))"

definition questionNumber :: "quiz_game \<Rightarrow> nat" where
  "questionNumber g = currentIndex g + 1"

definition totalQuestions :: "quiz_game \<Rightarrow> nat" where
  "totalQuestions g = length (questions g)"

definition isGameOver :: "quiz_game \<Rightarrow> bool" where
  "isGameOver g \<longleftrightarrow> currentIndex g \<ge> length (questions g)"

text \<open>
  \<open>[...new Set(xs)]\<close>: a Set keeps the first occurrence of each element, in insertion
  order. \<open>set_values seen xs\<close> appends to \<open>seen\<close> the elements of \<open>xs\<close> not yet in it.
\<close>

fun set_values :: "'a list \<Rightarrow> 'a list \<Rightarrow> 'a list" where
  "set_values seen [] = seen"
| "set_values seen (x # xs) =
     (if x \<in> set seen then set_values seen xs else set_values (seen @ [x]) xs)"

text \<open>
  \<^verbatim>\<open>
  get continents() {
    return [...new Set(this.allCountries.map((c) => c.continent))]
      .filter((c) => c !== "Antarctica")
      .sort();
  }
  \<close>
  The arrays built here hold strings and are all new, so the getter is a function of the
  catalog's contents. The default \<open>sort\<close> orders strings by their character codes; the
  sorted arrangement of a list under a linear order is unique, so \<open>sort\<close> of HOL gives it.
\<close>

definition continents :: "quiz_game \<Rightarrow> store \<Rightarrow> string list" where
  "continents g s =
     sort (filter (\<lambda>c. c \<noteq> ''Antarctica'')
            (set_values [] (map continent (arrays s (allCountries g)))))"

text \<open>The record \<open>{ correct, correctCode }\<close> that \<open>submitAnswer\<close> returns.\<close>

record answer_result =
  correct :: bool
  result_correctCode :: string

text \<open>
  \<^verbatim>\<open>
  submitAnswer(selectedCode) {
    if (this.answered) return null;
    this.answered = true;
    const question = this.questions[this.currentIndex];
    const correct = question.isCorrect(selectedCode);
    if (correct) this.score++;
    return { correct, correctCode: question.correctCode };
  }
  \<close>
  An index beyond the end of \<open>this.questions\<close> reads \<open>undefined\<close>, and the call
  \<open>question.isCorrect\<close> on it throws a \<open>TypeError\<close>, after \<open>answered\<close> was set.
\<close>

definition submitAnswer ::
  "string \<Rightarrow> quiz_game \<Rightarrow> (exn + answer_result option) \<times> quiz_game" where
  "submitAnswer selectedCode g =
     (if answered g then (Inr None, g)
      else (let g1 = g\<lparr>answered := True\<rparr>
            in if currentIndex g1 < length (questions g1)
               then (let question = questions g1 ! currentIndex g1;
                         c = isCorrect question selectedCode;
                         g2 = (if c then g1\<lparr>score := score g1 + 1\<rparr> else g1)
                     in (Inr (Some \<lparr>correct = c, result_correctCode = correctCode question\<rparr>),
                         g2))
               else (Inl TypeError, g1)))"

text \<open>
  \<^verbatim>\<open>
  nextQuestion() {
    this.currentIndex++;
    this.answered = false;
    return !this.isGameOver;
  }
  \<close>
\<close>

definition nextQuestion :: "quiz_game \<Rightarrow> bool \<times> quiz_game" where
  "nextQuestion g =
     (let g1 = g\<lparr>currentIndex := currentIndex g + 1\<rparr>;
          g2 = g1\<lparr>answered := False\<rparr>
      in (\<not> isGameOver g2, g2))"

subsection \<open>Sequences of calls\<close>

text \<open>\<open>n\<close> calls of \<open>nextQuestion\<close> in a row, the returned booleans dropped.\<close>

definition nextQuestions :: "nat \<Rightarrow> quiz_game \<Rightarrow> quiz_game" where
  "nextQuestions n g = ((\<lambda>g. snd (nextQuestion g)) ^^ n) g"

text \<open>
  A caller that makes a sequence of calls of \<open>game.start(flt)\<close> and
  \<open>QuestionGenerator.generate(pool, count)\<close>, going on after an exception of \<open>start\<close>
  with the game and the store as the failed call left them.
\<close>

datatype call = Start "string option" | Generate addr nat

fun call_step :: "quiz_game \<times> store \<Rightarrow> call \<Rightarrow> quiz_game \<times> store" where
  "call_step (g, s) (Start flt) = snd (start flt g s)"
| "call_step (g, s) (Generate pool cnt) = (g, snd (generate pool cnt s))"

definition run_calls :: "call list \<Rightarrow> quiz_game \<times> store \<Rightarrow> quiz_game \<times> store" where
  "run_calls cs gs = foldl call_step gs cs"

subsection \<open>The pool of a round, as a list of records\<close>

text \<open>
  The records \<open>start\<close> puts into the pool: the whole catalog for the filter \<open>null\<close>, the
  empty string or \<open>"all"\<close>, and the records of the named continent for any other filter.
\<close>

definition filtered_pool :: "string option \<Rightarrow> country list \<Rightarrow> country list" where
  "filtered_pool flt catalog =
     (case flt of
        None \<Rightarrow> catalog
      | Some c \<Rightarrow>
          if c = [] \<or> c = ''all'' then catalog else filter (\<lambda>r. continent r = c) catalog)"

text \<open>
  The filtered pool in the words of the specification: \<open>null\<close> or \<open>"all"\<close> mean the full
  catalog, any other filter selects the records whose continent equals it.
\<close>

definition spec_filtered_pool :: "string option \<Rightarrow> country list \<Rightarrow> country list" where
  "spec_filtered_pool flt catalog =
     (case flt of
        None \<Rightarrow> catalog
      | Some c \<Rightarrow> if c = ''all'' then catalog else filter (\<lambda>r. continent r = c) catalog)"

subsection \<open>Concrete catalogs\<close>

text \<open>The five-country catalog of the specification's scenario, at address 0 of a store.\<close>

definition catalog5 :: "country list" where
  "catalog5 =
     [\<lparr>code = ''AD'', name = ''Andorra'', continent = ''Europe''\<rparr>,
      \<lparr>code = ''AE'', name = ''UAE'', continent = ''Asia''\<rparr>,
      \<lparr>code = ''AF'', name = ''Afghanistan'', continent = ''Asia''\<rparr>,
      \<lparr>code = ''AG'', name = ''Antigua'', continent = ''North America''\<rparr>,
      \<lparr>code = ''AL'', name = ''Albania'', continent = ''Europe''\<rparr>]"

definition store5 :: store where
  "store5 = \<lparr>arrays = (\<lambda>_. [])(0 := catalog5), next_addr = 1, rnd = (\<lambda>n. n), pos = 0\<rparr>"

definition game5 :: quiz_game where
  "game5 = new_QuizGame 0"

text \<open>The game after \<open>new QuizGame(catalog5)\<close> and \<open>start(null)\<close>.\<close>

definition round5 :: "(exn + unit) \<times> quiz_game \<times> store" where
  "round5 = start None game5 store5"

text \<open>A ten-country catalog, at address 0 of a store.\<close>

definition catalog10 :: "country list" where
  "catalog10 = catalog5 @
     [\<lparr>code = ''AM'', name = ''Armenia'', continent = ''Asia''\<rparr>,
      \<lparr>code = ''AO'', name = ''Angola'', continent = ''Africa''\<rparr>,
      \<lparr>code = ''AQ'', name = ''Antarctica'', continent = ''Antarctica''\<rparr>,
      \<lparr>code = ''AR'', name = ''Argentina'', continent = ''South America''\<rparr>,
      \<lparr>code = ''AT'', name = ''Austria'', continent = ''Europe''\<rparr>]"

definition store10 :: store where
  "store10 =
     \<lparr>arrays = (\<lambda>_. [])(0 := catalog10), next_addr = 1, rnd = (\<lambda>n. 7 * n + 3), pos = 0\<rparr>"

text \<open>
  A pool of five records with four distinct codes (\<open>AE\<close> occurs twice), at address 0 of
  a store whose random source makes every draw \<open>Math.floor(Math.random() * (i + 1))\<close> with
  \<open>i + 1 \<le> 5\<close> equal to \<open>i\<close>, as \<open>Math.random()\<close> returning 0.9 each time does: every
  swap of \<open>shuffle\<close> is then of an element with itself.
\<close>

definition pool_dup :: "country list" where
  "pool_dup =
     [\<lparr>code = ''AD'', name = ''Andorra'', continent = ''Europe''\<rparr>,
      \<lparr>code = ''AE'', name = ''UAE'', continent = ''Asia''\<rparr>,
      \<lparr>code = ''AE'', name = ''United Arab Emirates'', continent = ''Asia''\<rparr>,
      \<lparr>code = ''AF'', name = ''Afghanistan'', continent = ''Asia''\<rparr>,
      \<lparr>code = ''AG'', name = ''Antigua'', continent = ''North America''\<rparr>]"

definition store_dup :: store where
  "store_dup = \<lparr>arrays = (\<lambda>_. [])(0 := pool_dup), next_addr = 1, rnd = (\<lambda>n. 59), pos = 0\<rparr>"

section \<open>Properties\<close>

subsection \<open>The store primitives and shuffle\<close>

lemma alloc_fst: "fst (alloc xs s) = next_addr s"
  by (simp add: alloc_def)

lemma alloc_next_addr: "next_addr (snd (alloc xs s)) = Suc (next_addr s)"
  by (simp add: alloc_def)

lemma alloc_arrays: "arrays (snd (alloc xs s)) = (arrays s)(next_addr s := xs)"
  by (simp add: alloc_def)

lemma alloc_rnd: "rnd (snd (alloc xs s)) = rnd s"
  by (simp add: alloc_def)

lemmas alloc_simps = alloc_fst alloc_next_addr alloc_arrays alloc_rnd

lemma shuffle_loop_next_addr: "next_addr (shuffle_loop a n s) = next_addr s"
  by (induction n arbitrary: s) (simp_all add: random_below_def Let_def split_beta)

lemma shuffle_loop_rnd: "rnd (shuffle_loop a n s) = rnd s"
  by (induction n arbitrary: s) (simp_all add: random_below_def Let_def split_beta)

lemma shuffle_loop_other: "b \<noteq> a \<Longrightarrow> arrays (shuffle_loop a n s) b = arrays s b"
  by (induction n arbitrary: s) (simp_all add: random_below_def Let_def split_beta)

lemma shuffle_loop_mset:
  "n \<le> length (arrays s a) - 1 \<Longrightarrow> mset (arrays (shuffle_loop a n s) a) = mset (arrays s a)"
proof (induction n arbitrary: s)
  case 0
  show ?case by simp
next
  case (Suc n)
  define xs where "xs = arrays s a"
  define j where "j = rnd s (pos s) mod (Suc n + 1)"
  define s' where
    "s' = (snd (random_below (Suc n + 1) s))
       \<lparr>arrays := (arrays s)(a := xs[Suc n := xs ! j, j := xs ! Suc n])\<rparr>"
  have i_lt: "Suc n < length xs"
    using Suc.prems by (simp add: xs_def)
  have "j < Suc n + 1"
    unfolding j_def by (rule mod_less_divisor) simp
  with i_lt have j_lt: "j < length xs" by simp
  have step: "shuffle_loop a (Suc n) s = shuffle_loop a n s'"
    by (simp add: s'_def xs_def j_def random_below_def Let_def)
  have arr: "arrays s' a = xs[Suc n := xs ! j, j := xs ! Suc n]"
    by (simp add: s'_def)
  have "n \<le> length (arrays s' a) - 1"
    using i_lt by (simp add: arr)
  then have "mset (arrays (shuffle_loop a n s') a) = mset (arrays s' a)"
    by (rule Suc.IH)
  also have "\<dots> = mset xs"
    unfolding arr using j_lt i_lt by (rule mset_swap)
  finally show ?case
    unfolding step xs_def .
qed

lemma shuffle_fst: "fst (shuffle a s) = a"
  by (simp add: shuffle_def)

lemma shuffle_next_addr: "next_addr (snd (shuffle a s)) = next_addr s"
  by (simp add: shuffle_def shuffle_loop_next_addr)

lemma shuffle_rnd: "rnd (snd (shuffle a s)) = rnd s"
  by (simp add: shuffle_def shuffle_loop_rnd)

lemma shuffle_other: "b \<noteq> a \<Longrightarrow> arrays (snd (shuffle a s)) b = arrays s b"
  by (simp add: shuffle_def shuffle_loop_other)

lemma shuffle_mset: "mset (arrays (snd (shuffle a s)) a) = mset (arrays s a)"
  by (simp add: shuffle_def shuffle_loop_mset)

lemma slice_elems_take: "slice_elems xs 0 (int n) = take n xs"
  by (simp add: slice_elems_def Let_def min_def)

subsection \<open>One Question\<close>

lemma make_question_fst:
  "fst (make_question pool c s) = new_Question c (next_addr s + 2)"
  by (simp add: make_question_def Let_def split_beta filter_array_def slice_def
      alloc_simps shuffle_fst shuffle_next_addr)

lemma make_question_next_addr: "next_addr (snd (make_question pool c s)) = next_addr s + 3"
  by (simp add: make_question_def Let_def split_beta filter_array_def slice_def
      alloc_simps shuffle_fst shuffle_next_addr)

lemma make_question_rnd: "rnd (snd (make_question pool c s)) = rnd s"
  by (simp add: make_question_def Let_def split_beta filter_array_def slice_def
      alloc_simps shuffle_fst shuffle_rnd)

lemma make_question_frame:
  "a < next_addr s \<Longrightarrow> arrays (snd (make_question pool c s)) a = arrays s a"
  by (simp add: make_question_def Let_def split_beta filter_array_def slice_def
      alloc_simps shuffle_fst shuffle_next_addr shuffle_other)

lemma make_question_options:
  "\<exists>sh. mset sh = mset (filter (\<lambda>x. code x \<noteq> code c) (arrays s pool)) \<and>
        mset (arrays (snd (make_question pool c s)) (next_addr s + 2)) = mset (c # take 3 sh)"
proof -
  define s1 where "s1 = snd (filter_array (\<lambda>x. code x \<noteq> code c) pool s)"
  define s2 where "s2 = snd (shuffle (next_addr s) s1)"
  define s3 where "s3 = snd (slice (next_addr s) 0 (int OPTIONS_COUNT - 1) s2)"
  define s4 where "s4 = snd (alloc (c # arrays s3 (next_addr s + 1)) s3)"
  define s5 where "s5 = snd (shuffle (next_addr s + 2) s4)"
  have mq: "snd (make_question pool c s) = s5"
    by (simp add: make_question_def Let_def split_beta s5_def s4_def s3_def s2_def s1_def
        filter_array_def slice_def alloc_simps shuffle_fst shuffle_next_addr)
  have a1: "arrays s1 (next_addr s) = filter (\<lambda>x. code x \<noteq> code c) (arrays s pool)"
    by (simp add: s1_def filter_array_def alloc_simps)
  have n1: "next_addr s1 = next_addr s + 1"
    by (simp add: s1_def filter_array_def alloc_simps)
  have a2: "mset (arrays s2 (next_addr s)) = mset (arrays s1 (next_addr s))"
    unfolding s2_def by (rule shuffle_mset)
  have n2: "next_addr s2 = next_addr s + 1"
    by (simp add: s2_def shuffle_next_addr n1)
  have a3: "arrays s3 (next_addr s + 1) = take 3 (arrays s2 (next_addr s))"
    using slice_elems_take [of "arrays s2 (next_addr s)" 3]
    by (simp add: s3_def slice_def alloc_simps n2 OPTIONS_COUNT_def)
  have n3: "next_addr s3 = next_addr s + 2"
    by (simp add: s3_def slice_def alloc_simps n2)
  have a4: "arrays s4 (next_addr s + 2) = c # arrays s3 (next_addr s + 1)"
    by (simp add: s4_def alloc_simps n3)
  have a5: "mset (arrays s5 (next_addr s + 2)) = mset (arrays s4 (next_addr s + 2))"
    unfolding s5_def by (rule shuffle_mset)
  have "mset (arrays s2 (next_addr s)) = mset (filter (\<lambda>x. code x \<noteq> code c) (arrays s pool))"
    using a2 a1 by simp
  moreover have "mset (arrays s5 (next_addr s + 2)) = mset (c # take 3 (arrays s2 (next_addr s)))"
    using a5 a4 a3 by simp
  ultimately show ?thesis
    unfolding mq by blast
qed

subsection \<open>The questions of a round\<close>

lemma map_questions_Cons:
  "map_questions pool (c # cs) s =
     (fst (make_question pool c s) # fst (map_questions pool cs (snd (make_question pool c s))),
      snd (map_questions pool cs (snd (make_question pool c s))))"
  by (simp add: Let_def split_beta)

lemma map_questions_country: "map country (fst (map_questions pool cs s)) = cs"
proof (induction cs arbitrary: s)
  case Nil
  show ?case by simp
next
  case (Cons c cs)
  show ?case
    unfolding map_questions_Cons
    by (simp add: Cons.IH make_question_fst new_Question_def)
qed

lemma map_questions_next_addr:
  "next_addr (snd (map_questions pool cs s)) = next_addr s + 3 * length cs"
proof (induction cs arbitrary: s)
  case Nil
  show ?case by simp
next
  case (Cons c cs)
  show ?case
    unfolding map_questions_Cons
    by (simp add: Cons.IH make_question_next_addr)
qed

lemma map_questions_rnd: "rnd (snd (map_questions pool cs s)) = rnd s"
proof (induction cs arbitrary: s)
  case Nil
  show ?case by simp
next
  case (Cons c cs)
  show ?case
    unfolding map_questions_Cons
    by (simp add: Cons.IH make_question_rnd)
qed

lemma map_questions_frame:
  "a < next_addr s \<Longrightarrow> arrays (snd (map_questions pool cs s)) a = arrays s a"
proof (induction cs arbitrary: s)
  case Nil
  show ?case by simp
next
  case (Cons c cs)
  have "a < next_addr (snd (make_question pool c s))"
    using Cons.prems by (simp add: make_question_next_addr)
  then have "arrays (snd (map_questions pool cs (snd (make_question pool c s)))) a =
      arrays (snd (make_question pool c s)) a"
    by (rule Cons.IH)
  then show ?case
    unfolding map_questions_Cons
    using Cons.prems by (simp add: make_question_frame)
qed

text \<open>What one Question of a generated round looks like, in the store the round leaves.\<close>

lemma map_questions_question:
  assumes "pool < next_addr s" and "q \<in> set (fst (map_questions pool cs s))"
  shows "correctCode q = code (country q) \<and> country q \<in> set cs \<and>
    (\<exists>sh. mset sh = mset (filter (\<lambda>x. code x \<noteq> code (country q)) (arrays s pool)) \<and>
       mset (arrays (snd (map_questions pool cs s)) (options q)) = mset (country q # take 3 sh))"
  using assms
proof (induction cs arbitrary: s)
  case Nil
  then show ?case by simp
next
  case (Cons c cs)
  define s1 where "s1 = snd (make_question pool c s)"
  define s2 where "s2 = snd (map_questions pool cs s1)"
  have fin: "snd (map_questions pool (c # cs) s) = s2"
    unfolding map_questions_Cons by (simp add: s1_def s2_def)
  have pool1: "pool < next_addr s1"
    using Cons.prems(1) by (simp add: s1_def make_question_next_addr)
  have same_pool: "arrays s1 pool = arrays s pool"
    unfolding s1_def using Cons.prems(1) by (rule make_question_frame)
  from Cons.prems(2)
  consider (head) "q = fst (make_question pool c s)"
    | (tail) "q \<in> set (fst (map_questions pool cs s1))"
    unfolding map_questions_Cons by (auto simp: s1_def)
  then show ?case
  proof cases
    case head
    then have q: "q = new_Question c (next_addr s + 2)"
      by (simp add: make_question_fst)
    have "next_addr s + 2 < next_addr s1"
      by (simp add: s1_def make_question_next_addr)
    then have "arrays s2 (next_addr s + 2) = arrays s1 (next_addr s + 2)"
      unfolding s2_def by (rule map_questions_frame)
    with make_question_options [of c s pool] show ?thesis
      unfolding fin by (simp add: q new_Question_def s1_def)
  next
    case tail
    with pool1 Cons.IH [of s1] show ?thesis
      unfolding fin by (simp add: s2_def same_pool)
  qed
qed


subsection \<open>generate\<close>

lemma generate_unfold:
  "generate pool cnt s =
     map_questions pool
       (take cnt (arrays (snd (shuffle (next_addr s) (snd (spread pool s)))) (next_addr s)))
       (snd (slice (next_addr s) 0 (int cnt) (snd (shuffle (next_addr s) (snd (spread pool s))))))"
  by (simp add: generate_def Let_def split_beta spread_def slice_def alloc_simps shuffle_fst
      shuffle_next_addr slice_elems_take)

text \<open>
  \<open>selected.map\<close> is modelled on the elements \<open>selected\<close> holds when the call starts. The
  callback never writes to that array: when the round is built it still holds the targets.
\<close>

lemma generate_selected:
  "arrays (snd (generate pool cnt s)) (Suc (next_addr s)) =
     map country (fst (generate pool cnt s))"
proof -
  define s3 where
    "s3 = snd (slice (next_addr s) 0 (int cnt) (snd (shuffle (next_addr s) (snd (spread pool s)))))"
  define sel where
    "sel = take cnt (arrays (snd (shuffle (next_addr s) (snd (spread pool s)))) (next_addr s))"
  have gen: "generate pool cnt s = map_questions pool sel s3"
    unfolding generate_unfold sel_def s3_def ..
  have "Suc (next_addr s) < next_addr s3"
    by (simp add: s3_def slice_def spread_def alloc_simps shuffle_next_addr)
  then have "arrays (snd (map_questions pool sel s3)) (Suc (next_addr s)) =
      arrays s3 (Suc (next_addr s))"
    by (rule map_questions_frame)
  also have "\<dots> = sel"
    by (simp add: s3_def sel_def slice_def spread_def alloc_simps shuffle_next_addr
        slice_elems_take)
  finally show ?thesis
    by (simp add: gen map_questions_country)
qed

lemma generate_targets:
  "\<exists>sh. mset sh = mset (arrays s pool) \<and> map country (fst (generate pool cnt s)) = take cnt sh"
proof -
  have "mset (arrays (snd (shuffle (next_addr s) (snd (spread pool s)))) (next_addr s)) =
      mset (arrays s pool)"
    by (simp add: shuffle_mset spread_def alloc_simps)
  then show ?thesis
    unfolding generate_unfold map_questions_country by blast
qed

lemma generate_length: "length (fst (generate pool cnt s)) = min cnt (length (arrays s pool))"
proof -
  obtain sh where sh: "mset sh = mset (arrays s pool)"
    and tg: "map country (fst (generate pool cnt s)) = take cnt sh"
    using generate_targets by blast
  have "length (fst (generate pool cnt s)) = length (map country (fst (generate pool cnt s)))"
    by simp
  also have "\<dots> = min cnt (length sh)"
    unfolding tg by (simp add: min.commute)
  also have "length sh = length (arrays s pool)"
    using sh by (rule mset_eq_length)
  finally show ?thesis .
qed

lemma generate_frame:
  assumes "a < next_addr s"
  shows "arrays (snd (generate pool cnt s)) a = arrays s a"
proof -
  define s1 where "s1 = snd (spread pool s)"
  define s2 where "s2 = snd (shuffle (next_addr s) s1)"
  define s3 where "s3 = snd (slice (next_addr s) 0 (int cnt) s2)"
  have "a < next_addr s3"
    using assms by (simp add: s3_def s2_def s1_def slice_def spread_def alloc_simps shuffle_next_addr)
  then have "arrays (snd (generate pool cnt s)) a = arrays s3 a"
    unfolding generate_unfold s3_def s2_def s1_def by (rule map_questions_frame)
  also have "\<dots> = arrays s a"
    using assms
    by (simp add: s3_def s2_def s1_def slice_def spread_def alloc_simps shuffle_next_addr
        shuffle_other)
  finally show ?thesis .
qed

lemma generate_rnd: "rnd (snd (generate pool cnt s)) = rnd s"
  unfolding generate_unfold
  by (simp add: map_questions_rnd slice_def spread_def alloc_simps shuffle_rnd)

lemma generate_next_addr: "next_addr s \<le> next_addr (snd (generate pool cnt s))"
  unfolding generate_unfold
  by (simp add: map_questions_next_addr slice_def spread_def alloc_simps shuffle_next_addr)

lemma generate_question:
  assumes "pool < next_addr s" and "q \<in> set (fst (generate pool cnt s))"
  shows "correctCode q = code (country q) \<and> country q \<in> set (arrays s pool) \<and>
    (\<exists>sh. mset sh = mset (filter (\<lambda>x. code x \<noteq> code (country q)) (arrays s pool)) \<and>
       mset (arrays (snd (generate pool cnt s)) (options q)) = mset (country q # take 3 sh))"
proof -
  define s1 where "s1 = snd (spread pool s)"
  define s2 where "s2 = snd (shuffle (next_addr s) s1)"
  define s3 where "s3 = snd (slice (next_addr s) 0 (int cnt) s2)"
  define sel where "sel = take cnt (arrays s2 (next_addr s))"
  have gen: "generate pool cnt s = map_questions pool sel s3"
    unfolding generate_unfold sel_def s3_def s2_def s1_def ..
  have pool3: "pool < next_addr s3"
    using assms(1)
    by (simp add: s3_def s2_def s1_def slice_def spread_def alloc_simps shuffle_next_addr)
  have same: "arrays s3 pool = arrays s pool"
    using assms(1)
    by (simp add: s3_def s2_def s1_def slice_def spread_def alloc_simps shuffle_next_addr
        shuffle_other)
  have "mset (arrays s2 (next_addr s)) = mset (arrays s pool)"
    by (simp add: s2_def s1_def shuffle_mset spread_def alloc_simps)
  then have "set (arrays s2 (next_addr s)) = set (arrays s pool)"
    by (rule mset_eq_setD)
  then have sel_sub: "set sel \<subseteq> set (arrays s pool)"
    unfolding sel_def using set_take_subset [of cnt "arrays s2 (next_addr s)"] by simp
  from assms(2) have "q \<in> set (fst (map_questions pool sel s3))"
    by (simp add: gen)
  with pool3 have "correctCode q = code (country q) \<and> country q \<in> set sel \<and>
    (\<exists>sh. mset sh = mset (filter (\<lambda>x. code x \<noteq> code (country q)) (arrays s3 pool)) \<and>
       mset (arrays (snd (map_questions pool sel s3)) (options q)) = mset (country q # take 3 sh))"
    by (rule map_questions_question)
  with sel_sub show ?thesis
    unfolding gen same by blast
qed


subsection \<open>Options and targets as lists\<close>

lemma others_length:
  assumes "4 \<le> card (code ` set P)"
  shows "3 \<le> length (filter (\<lambda>x. code x \<noteq> code c) P)"
proof -
  have "code ` set (filter (\<lambda>x. code x \<noteq> code c) P) = code ` set P - {code c}"
    by auto
  moreover have "card (code ` set P - {code c}) \<ge> card (code ` set P) - 1"
    by (simp add: card_Diff_singleton_if)
  ultimately have "3 \<le> card (code ` set (filter (\<lambda>x. code x \<noteq> code c) P))"
    using assms by simp
  also have "\<dots> \<le> card (set (filter (\<lambda>x. code x \<noteq> code c) P))"
    by (rule card_image_le) simp
  also have "\<dots> \<le> length (filter (\<lambda>x. code x \<noteq> code c) P)"
    by (rule card_length)
  finally show ?thesis .
qed

lemma options_length:
  assumes "mset sh = mset (filter (\<lambda>x. code x \<noteq> code c) P)"
    and "mset opts = mset (c # take 3 sh)"
    and "4 \<le> card (code ` set P)"
  shows "length opts = 4"
proof -
  have "length sh = length (filter (\<lambda>x. code x \<noteq> code c) P)"
    using assms(1) by (rule mset_eq_length)
  with others_length [OF assms(3), of c] have "3 \<le> length sh"
    by simp
  moreover have "length opts = length (c # take 3 sh)"
    using assms(2) by (rule mset_eq_length)
  ultimately show ?thesis by simp
qed

lemma options_one_correct:
  assumes "mset sh = mset (filter (\<lambda>x. code x \<noteq> code c) P)"
    and "mset opts = mset (c # take 3 sh)"
  shows "length (filter (\<lambda>x. code x = code c) opts) = 1"
proof -
  have "set sh = set (filter (\<lambda>x. code x \<noteq> code c) P)"
    using assms(1) by (rule mset_eq_setD)
  then have "\<forall>x \<in> set (take 3 sh). code x \<noteq> code c"
    using set_take_subset [of 3 sh] by auto
  then have none: "filter (\<lambda>x. code x = code c) (take 3 sh) = []"
    by (simp add: filter_empty_conv)
  have "mset (filter (\<lambda>x. code x = code c) opts) =
      mset (filter (\<lambda>x. code x = code c) (c # take 3 sh))"
    unfolding mset_filter assms(2) ..
  then have "length (filter (\<lambda>x. code x = code c) opts) =
      length (filter (\<lambda>x. code x = code c) (c # take 3 sh))"
    by (rule mset_eq_length)
  then show ?thesis
    by (simp add: none)
qed

lemma options_distinct:
  assumes "mset sh = mset (filter (\<lambda>x. code x \<noteq> code c) P)"
    and "mset opts = mset (c # take 3 sh)"
    and "distinct (map code P)"
  shows "distinct (map code opts)"
proof -
  have "distinct (map code (filter (\<lambda>x. code x \<noteq> code c) P))"
    using assms(3) by (rule distinct_map_filter)
  moreover have "mset (map code sh) = mset (map code (filter (\<lambda>x. code x \<noteq> code c) P))"
    using assms(1) by simp
  ultimately have "distinct (map code sh)"
    using mset_eq_imp_distinct_iff by blast
  then have d3: "distinct (map code (take 3 sh))"
    using distinct_take [of "map code sh" 3] by (simp add: take_map)
  have "set sh = set (filter (\<lambda>x. code x \<noteq> code c) P)"
    using assms(1) by (rule mset_eq_setD)
  then have "code c \<notin> code ` set (take 3 sh)"
    using set_take_subset [of 3 sh] by auto
  with d3 have "distinct (map code (c # take 3 sh))"
    by simp
  moreover have "mset (map code opts) = mset (map code (c # take 3 sh))"
    using assms(2) by simp
  ultimately show ?thesis
    using mset_eq_imp_distinct_iff by blast
qed

lemma targets_distinct:
  assumes "distinct (map code (arrays s pool))"
  shows "distinct (map (\<lambda>q. code (country q)) (fst (generate pool cnt s)))"
proof -
  obtain sh where sh: "mset sh = mset (arrays s pool)"
    and tg: "map country (fst (generate pool cnt s)) = take cnt sh"
    using generate_targets by blast
  have "mset (map code sh) = mset (map code (arrays s pool))"
    using sh by simp
  with assms have "distinct (map code sh)"
    using mset_eq_imp_distinct_iff by blast
  then have "distinct (map code (take cnt sh))"
    using distinct_take [of "map code sh" cnt] by (simp add: take_map)
  moreover have "map (\<lambda>q. code (country q)) (fst (generate pool cnt s)) =
      map code (map country (fst (generate pool cnt s)))"
    by simp
  ultimately show ?thesis
    unfolding tg by simp
qed


subsection \<open>start\<close>

lemma start_pool_fst: "fst (start_pool flt g s) = next_addr s"
  by (simp add: start_pool_def filter_array_def spread_def alloc_simps)

lemma start_pool_next_addr: "next_addr (snd (start_pool flt g s)) = Suc (next_addr s)"
  by (simp add: start_pool_def filter_array_def spread_def alloc_simps)

lemma start_pool_rnd: "rnd (snd (start_pool flt g s)) = rnd s"
  by (simp add: start_pool_def filter_array_def spread_def alloc_simps)

lemma start_pool_arrays:
  "arrays (snd (start_pool flt g s)) =
     (arrays s)(next_addr s := filtered_pool flt (arrays s (allCountries g)))"
  by (cases flt)
    (simp_all add: start_pool_def filter_array_def spread_def alloc_simps filtered_pool_def
      filters_by_continent_def)

lemma start_pool_elems:
  "arrays (snd (start_pool flt g s)) (fst (start_pool flt g s)) =
     filtered_pool flt (arrays s (allCountries g))"
  by (simp add: start_pool_arrays start_pool_fst)

lemma start_fst:
  "fst (start flt g s) =
     (if length (filtered_pool flt (arrays s (allCountries g))) < OPTIONS_COUNT
      then Inl (Error (length (filtered_pool flt (arrays s (allCountries g)))) flt)
      else Inr ())"
  by (simp add: start_def Let_def split_beta start_pool_elems)

lemma start_game:
  "fst (snd (start flt g s)) =
     (if length (filtered_pool flt (arrays s (allCountries g))) < OPTIONS_COUNT then g
      else g\<lparr>questions :=
               fst (generate (fst (start_pool flt g s)) QUESTIONS_PER_ROUND
                     (snd (start_pool flt g s))),
             currentIndex := 0, score := 0, answered := False\<rparr>)"
  by (simp add: start_def Let_def split_beta start_pool_elems)

lemma start_store:
  "snd (snd (start flt g s)) =
     (if length (filtered_pool flt (arrays s (allCountries g))) < OPTIONS_COUNT
      then snd (start_pool flt g s)
      else snd (generate (fst (start_pool flt g s)) QUESTIONS_PER_ROUND
                 (snd (start_pool flt g s))))"
  by (simp add: start_def Let_def split_beta start_pool_elems)

lemma start_allCountries: "allCountries (fst (snd (start flt g s))) = allCountries g"
  by (simp add: start_game)

lemma start_frame:
  assumes "a < next_addr s"
  shows "arrays (snd (snd (start flt g s))) a = arrays s a"
proof -
  have "a < next_addr (snd (start_pool flt g s))"
    using assms by (simp add: start_pool_next_addr)
  then have "arrays (snd (generate (fst (start_pool flt g s)) QUESTIONS_PER_ROUND
      (snd (start_pool flt g s)))) a = arrays (snd (start_pool flt g s)) a"
    by (rule generate_frame)
  moreover have "arrays (snd (start_pool flt g s)) a = arrays s a"
    using assms by (simp add: start_pool_arrays)
  ultimately show ?thesis
    by (simp add: start_store)
qed

lemma start_next_addr: "next_addr s \<le> next_addr (snd (snd (start flt g s)))"
proof -
  have "next_addr s \<le> next_addr (snd (start_pool flt g s))"
    by (simp add: start_pool_next_addr)
  moreover have "next_addr (snd (start_pool flt g s)) \<le>
      next_addr (snd (generate (fst (start_pool flt g s)) QUESTIONS_PER_ROUND
        (snd (start_pool flt g s))))"
    by (rule generate_next_addr)
  ultimately show ?thesis
    by (simp add: start_store)
qed

lemma start_round_length:
  assumes "\<not> length (filtered_pool flt (arrays s (allCountries g))) < OPTIONS_COUNT"
  shows "length (questions (fst (snd (start flt g s)))) =
    min QUESTIONS_PER_ROUND (length (filtered_pool flt (arrays s (allCountries g))))"
  using assms by (simp add: start_game generate_length start_pool_elems)

subsection \<open>nextQuestion and submitAnswer\<close>

lemma nextQuestion_snd:
  "snd (nextQuestion g) = g\<lparr>currentIndex := currentIndex g + 1, answered := False\<rparr>"
  by (simp add: nextQuestion_def Let_def)

lemma nextQuestions_Suc: "nextQuestions (Suc n) g = snd (nextQuestion (nextQuestions n g))"
  by (simp add: nextQuestions_def)

lemma nextQuestions_currentIndex: "currentIndex (nextQuestions n g) = currentIndex g + n"
  by (induction n) (simp_all add: nextQuestions_Suc nextQuestion_snd, simp add: nextQuestions_def)

lemma nextQuestions_questions: "questions (nextQuestions n g) = questions g"
  by (induction n) (simp_all add: nextQuestions_Suc nextQuestion_snd, simp add: nextQuestions_def)

lemma nextQuestions_score: "score (nextQuestions n g) = score g"
  by (induction n) (simp_all add: nextQuestions_Suc nextQuestion_snd, simp add: nextQuestions_def)

lemma nextQuestions_answered: "answered (nextQuestions (Suc n) g) = False"
  by (simp add: nextQuestions_Suc nextQuestion_snd)

lemma submitAnswer_round_over:
  assumes "\<not> answered g" and "length (questions g) \<le> currentIndex g"
  shows "submitAnswer selectedCode g = (Inl TypeError, g\<lparr>answered := True\<rparr>)"
  using assms by (simp add: submitAnswer_def Let_def)

lemma submitAnswer_in_round:
  assumes "\<not> answered g" and "currentIndex g < length (questions g)"
  shows "submitAnswer selectedCode g =
    (Inr (Some \<lparr>correct = (selectedCode = correctCode (questions g ! currentIndex g)),
                 result_correctCode = correctCode (questions g ! currentIndex g)\<rparr>),
     g\<lparr>answered := True,
       score := (if selectedCode = correctCode (questions g ! currentIndex g)
                 then score g + 1 else score g)\<rparr>)"
  using assms by (simp add: submitAnswer_def Let_def isCorrect_def)

lemma submitAnswer_answered:
  assumes "answered g"
  shows "submitAnswer selectedCode g = (Inr None, g)"
  using assms by (simp add: submitAnswer_def)


subsection \<open>The five-country round\<close>

lemma store5_simps:
  "arrays store5 0 = catalog5" "next_addr store5 = 1" "allCountries game5 = 0"
  "questions game5 = []" "score game5 = 0"
  by (simp_all add: store5_def game5_def new_QuizGame_def)

lemma filtered_pool_all:
  "filtered_pool None xs = xs" "filtered_pool (Some []) xs = xs"
  "filtered_pool (Some ''all'') xs = xs"
  by (simp_all add: filtered_pool_def)

lemma length_catalog5: "length catalog5 = 5"
  by (simp add: catalog5_def)

lemma round5_ok: "fst round5 = Inr ()"
  by (simp add: round5_def start_fst filtered_pool_all store5_simps length_catalog5
      OPTIONS_COUNT_def)

lemma round5_game:
  "currentIndex (fst (snd round5)) = 0" "score (fst (snd round5)) = 0"
  "answered (fst (snd round5)) = False" "length (questions (fst (snd round5))) = 5"
  "allCountries (fst (snd round5)) = 0"
  by (simp_all add: round5_def start_game filtered_pool_all length_catalog5 OPTIONS_COUNT_def
      generate_length start_pool_elems QUESTIONS_PER_ROUND_def store5_simps)

lemma round5_store:
  "arrays (snd (snd round5)) 0 = catalog5"
  unfolding round5_def using start_frame [of 0 store5 None game5] by (simp add: store5_simps)

subsection \<open>Claims C1 and C2\<close>

text \<open>
  Claim C1 says that after a successful start no operation raises an exception, and in
  particular that \<open>submitAnswer\<close> still returns normally when the round is over and
  \<open>answered\<close> is false. On the five-country catalog, \<open>start(null)\<close> succeeds with a round of
  five questions, the fifth \<open>nextQuestion()\<close> returns false, and \<open>submitAnswer("AD")\<close>
  then throws a \<open>TypeError\<close>: \<open>this.questions[this.currentIndex]\<close> is \<open>undefined\<close>.
\<close>

theorem submitAnswer_after_round_throws:
  "fst round5 = Inr () \<and> totalQuestions (fst (snd round5)) = 5 \<and>
   fst (nextQuestion (nextQuestions 4 (fst (snd round5)))) = False \<and>
   fst (submitAnswer ''AD'' (nextQuestions 5 (fst (snd round5)))) = Inl TypeError"
proof -
  define g where "g = nextQuestions 5 (fst (snd round5))"
  have "nextQuestions 5 (fst (snd round5)) = nextQuestions (Suc 4) (fst (snd round5))"
    by simp
  then have "\<not> answered g"
    unfolding g_def by (simp only: nextQuestions_answered) simp
  moreover have "length (questions g) \<le> currentIndex g"
    by (simp add: g_def nextQuestions_questions nextQuestions_currentIndex round5_game)
  ultimately have "submitAnswer ''AD'' g = (Inl TypeError, g\<lparr>answered := True\<rparr>)"
    by (rule submitAnswer_round_over)
  moreover have "fst (nextQuestion (nextQuestions 4 (fst (snd round5)))) = False"
    by (simp add: nextQuestion_def Let_def isGameOver_def nextQuestions_questions
        nextQuestions_currentIndex round5_game)
  ultimately show ?thesis
    by (simp add: g_def round5_ok totalQuestions_def round5_game)
qed

text \<open>
  Claim C2: \<open>generate(pool, count)\<close> returns exactly \<open>min(count, pool.length)\<close> Questions,
  for every pool and every count (a natural number); a start with filter \<open>"all"\<close> on a
  catalog of five countries succeeds with a round of five questions, and an unfiltered
  start on a catalog of at least ten countries succeeds with a round of ten. With any
  filter, a successful start gives a round of \<open>min(10, n)\<close> questions for a pool of \<open>n\<close>
  records.
\<close>

theorem generate_count:
  "length (fst (generate pool cnt s)) = min cnt (length (arrays s pool)) \<and>
   (length (arrays s (allCountries g)) = 5 \<longrightarrow>
      fst (start (Some ''all'') g s) = Inr () \<and>
      length (questions (fst (snd (start (Some ''all'') g s)))) = 5) \<and>
   ((flt = None \<or> flt = Some ''all'') \<longrightarrow> 10 \<le> length (arrays s (allCountries g)) \<longrightarrow>
      fst (start flt g s) = Inr () \<and> length (questions (fst (snd (start flt g s)))) = 10) \<and>
   (fst (start flt g s) = Inr () \<longrightarrow>
      length (questions (fst (snd (start flt g s)))) =
        min 10 (length (filtered_pool flt (arrays s (allCountries g)))))"
proof (intro conjI impI)
  show "length (fst (generate pool cnt s)) = min cnt (length (arrays s pool))"
    by (rule generate_length)
next
  assume five: "length (arrays s (allCountries g)) = 5"
  have pool: "filtered_pool (Some ''all'') (arrays s (allCountries g)) = arrays s (allCountries g)"
    by (simp add: filtered_pool_def)
  show "fst (start (Some ''all'') g s) = Inr ()"
    by (simp add: start_fst pool five OPTIONS_COUNT_def)
  have "\<not> length (filtered_pool (Some ''all'') (arrays s (allCountries g))) < OPTIONS_COUNT"
    by (simp add: pool five OPTIONS_COUNT_def)
  then show "length (questions (fst (snd (start (Some ''all'') g s)))) = 5"
    by (simp add: start_round_length) (simp add: pool five QUESTIONS_PER_ROUND_def)
next
  assume flt: "flt = None \<or> flt = Some ''all''"
    and ten: "10 \<le> length (arrays s (allCountries g))"
  from flt have pool: "filtered_pool flt (arrays s (allCountries g)) = arrays s (allCountries g)"
    by (auto simp: filtered_pool_def)
  show "fst (start flt g s) = Inr ()"
    using ten by (simp add: start_fst pool OPTIONS_COUNT_def)
  have "\<not> length (filtered_pool flt (arrays s (allCountries g))) < OPTIONS_COUNT"
    using ten by (simp add: pool OPTIONS_COUNT_def)
  then show "length (questions (fst (snd (start flt g s)))) = 10"
    using ten by (simp add: start_round_length) (simp add: pool QUESTIONS_PER_ROUND_def)
next
  assume "fst (start flt g s) = Inr ()"
  then have "\<not> length (filtered_pool flt (arrays s (allCountries g))) < OPTIONS_COUNT"
    by (simp add: start_fst split: if_splits)
  then show "length (questions (fst (snd (start flt g s)))) =
      min 10 (length (filtered_pool flt (arrays s (allCountries g))))"
    by (simp add: start_round_length) (simp add: QUESTIONS_PER_ROUND_def)
qed

lemma store10_simps:
  "arrays store10 0 = catalog10" "next_addr store10 = 1" "length catalog10 = 10"
  by (simp_all add: store10_def catalog10_def catalog5_def)

theorem generate_count_witness:
  "length (arrays store5 (allCountries game5)) = 5 \<and>
   fst (start (Some ''all'') game5 store5) = Inr () \<and>
   length (questions (fst (snd (start (Some ''all'') game5 store5)))) = 5 \<and>
   10 \<le> length (arrays store10 (allCountries game5)) \<and>
   fst (start None game5 store10) = Inr () \<and>
   length (questions (fst (snd (start None game5 store10)))) = 10 \<and>
   length (fst (generate 0 3 store5)) = 3"
  using generate_count [of 0 3 store5 game5 None]
    generate_count [of 0 3 store10 game5 None]
  by (simp add: store5_simps store10_simps length_catalog5 filtered_pool_all)

subsection \<open>Claims C3 and C4\<close>

lemma shuffle_loop_no_swap:
  assumes "\<And>p i. 0 < i \<Longrightarrow> i \<le> n \<Longrightarrow> rnd s p mod (i + 1) = i"
  shows "shuffle_loop a n s = s\<lparr>pos := pos s + n\<rparr>"
  using assms
proof (induction n arbitrary: s)
  case 0
  show ?case by simp
next
  case (Suc n)
  define s1 where "s1 = s\<lparr>pos := Suc (pos s)\<rparr>"
  have j: "rnd s (pos s) mod (Suc n + 1) = Suc n"
    by (rule Suc.prems) simp_all
  have "shuffle_loop a (Suc n) s = shuffle_loop a n s1"
    using j by (simp add: random_below_def Let_def s1_def)
  also have "\<dots> = s1\<lparr>pos := pos s1 + n\<rparr>"
  proof (rule Suc.IH)
    fix p i :: nat
    assume "0 < i" and "i \<le> n"
    then show "rnd s1 p mod (i + 1) = i"
      using Suc.prems [of i p] by (simp add: s1_def)
  qed
  finally show ?case
    by (simp add: s1_def)
qed

lemma draw_59:
  assumes "0 < i" and "i \<le> 4"
  shows "(59::nat) mod Suc i = i"
proof -
  from assms consider "i = 1" | "i = 2" | "i = 3" | "i = 4"
    by linarith
  then show ?thesis
  proof cases
    case 1
    show ?thesis unfolding 1 Suc_1 by simp
  next
    case 2
    have "(59::nat) mod 3 = 2" by simp
    then show ?thesis unfolding 2 by simp
  next
    case 3
    have "(59::nat) mod 4 = 3" by simp
    then show ?thesis unfolding 3 by simp
  next
    case 4
    have "(59::nat) mod 5 = 4" by simp
    then show ?thesis unfolding 4 by simp
  qed
qed

lemma shuffle_59:
  assumes "rnd s = (\<lambda>n. 59)" and "length (arrays s a) \<le> 5"
  shows "shuffle a s = (a, s\<lparr>pos := pos s + (length (arrays s a) - 1)\<rparr>)"
proof -
  have "shuffle_loop a (length (arrays s a) - 1) s = s\<lparr>pos := pos s + (length (arrays s a) - 1)\<rparr>"
  proof (rule shuffle_loop_no_swap)
    fix p i :: nat
    assume "0 < i" and "i \<le> length (arrays s a) - 1"
    with assms(2) have "i \<le> 4" by simp
    with \<open>0 < i\<close> show "rnd s p mod (i + 1) = i"
      by (simp add: assms(1) draw_59)
  qed
  then show ?thesis
    by (simp add: shuffle_def)
qed

lemma generate_dup:
  "fst (generate 0 1 store_dup) =
     [new_Question \<lparr>code = ''AD'', name = ''Andorra'', continent = ''Europe''\<rparr> 5]"
  "map code (arrays (snd (generate 0 1 store_dup)) 5) = [''AD'', ''AE'', ''AE'', ''AF'']"
  by (simp_all add: generate_def make_question_def Let_def spread_def filter_array_def
      slice_def alloc_def store_dup_def pool_dup_def shuffle_59 slice_elems_def
      OPTIONS_COUNT_def eval_nat_numeral)


text \<open>
  Claim C3, as stated, asks only that the pool has at least four pairwise-distinct codes.
  The pool \<open>pool_dup\<close> has the four codes AD, AE, AF, AG, with AE on two records; when
  every draw of \<open>shuffle\<close> swaps an element with itself, the Question for Andorra gets the
  options AD, AE, AE, AF: four records, but not with pairwise-distinct codes.
\<close>

theorem options_duplicate_counterexample:
  "0 < next_addr store_dup \<and> 4 \<le> card (code ` set (arrays store_dup 0)) \<and>
   hd (fst (generate 0 1 store_dup)) \<in> set (fst (generate 0 1 store_dup)) \<and>
   map code (arrays (snd (generate 0 1 store_dup)) (options (hd (fst (generate 0 1 store_dup)))))
     = [''AD'', ''AE'', ''AE'', ''AF''] \<and>
   \<not> distinct (map code
     (arrays (snd (generate 0 1 store_dup)) (options (hd (fst (generate 0 1 store_dup))))))"
proof -
  have "code ` set (arrays store_dup 0) = {''AD'', ''AE'', ''AF'', ''AG''}"
    by (auto simp: store_dup_def pool_dup_def)
  then have "card (code ` set (arrays store_dup 0)) = 4"
    by simp
  moreover have "0 < next_addr store_dup"
    by (simp add: store_dup_def)
  moreover have o: "options (hd (fst (generate 0 1 store_dup))) = 5"
    unfolding generate_dup(1) by (simp add: new_Question_def)
  moreover have "hd (fst (generate 0 1 store_dup)) \<in> set (fst (generate 0 1 store_dup))"
    unfolding generate_dup(1) by simp
  moreover have "map code (arrays (snd (generate 0 1 store_dup)) 5) = [''AD'', ''AE'', ''AE'', ''AF'']"
    by (rule generate_dup(2))
  ultimately show ?thesis
    unfolding o by simp
qed

text \<open>
  Claim C3, amended: for every pool (an array that exists in the store) whose records have
  at least four distinct codes, every Question of a generated round has exactly four
  options, exactly one of which has the code \<open>correctCode\<close>, and \<open>correctCode\<close> is the code of
  the target country; when all records of the pool have pairwise-distinct codes, so do the
  four options. The options are read in the store that \<open>generate\<close> leaves.
\<close>

theorem question_options:
  assumes "pool < next_addr s"
    and "4 \<le> card (code ` set (arrays s pool))"
    and "q \<in> set (fst (generate pool cnt s))"
  shows "length (arrays (snd (generate pool cnt s)) (options q)) = 4 \<and>
    length (filter (\<lambda>x. code x = correctCode q)
      (arrays (snd (generate pool cnt s)) (options q))) = 1 \<and>
    correctCode q = code (country q) \<and>
    (distinct (map code (arrays s pool)) \<longrightarrow>
       distinct (map code (arrays (snd (generate pool cnt s)) (options q))))"
proof -
  from generate_question [OF assms(1) assms(3)]
  obtain sh where cc: "correctCode q = code (country q)"
    and sh: "mset sh = mset (filter (\<lambda>x. code x \<noteq> code (country q)) (arrays s pool))"
    and opts: "mset (arrays (snd (generate pool cnt s)) (options q)) = mset (country q # take 3 sh)"
    by blast
  have "length (arrays (snd (generate pool cnt s)) (options q)) = 4"
    using sh opts assms(2) by (rule options_length)
  moreover have "length (filter (\<lambda>x. code x = correctCode q)
      (arrays (snd (generate pool cnt s)) (options q))) = 1"
    unfolding cc using sh opts by (rule options_one_correct)
  moreover have "distinct (map code (arrays (snd (generate pool cnt s)) (options q)))"
    if "distinct (map code (arrays s pool))"
    using sh opts that by (rule options_distinct)
  ultimately show ?thesis
    using cc by blast
qed

lemma catalog5_codes: "map code catalog5 = [''AD'', ''AE'', ''AF'', ''AG'', ''AL'']"
  by (simp add: catalog5_def)

lemma catalog5_distinct: "distinct (map code catalog5)"
  by (simp add: catalog5_codes)

lemma catalog5_card: "card (code ` set catalog5) = 5"
proof -
  have "card (set (map code catalog5)) = length (map code catalog5)"
    using catalog5_distinct by (rule distinct_card)
  then show ?thesis
    by (simp add: length_catalog5)
qed

lemma generate5_nonempty: "hd (fst (generate 0 cnt store5)) \<in> set (fst (generate 0 cnt store5))"
  if "0 < cnt"
proof -
  have "length (fst (generate 0 cnt store5)) = min cnt 5"
    by (simp add: generate_length store5_simps length_catalog5)
  with that have "fst (generate 0 cnt store5) \<noteq> []"
    by auto
  then show ?thesis
    by (rule hd_in_set)
qed

theorem question_options_witness:
  "0 < next_addr store5 \<and> 4 \<le> card (code ` set (arrays store5 0)) \<and>
   hd (fst (generate 0 10 store5)) \<in> set (fst (generate 0 10 store5)) \<and>
   distinct (map code (arrays store5 0)) \<and>
   length (arrays (snd (generate 0 10 store5)) (options (hd (fst (generate 0 10 store5))))) = 4 \<and>
   distinct (map code
     (arrays (snd (generate 0 10 store5)) (options (hd (fst (generate 0 10 store5))))))"
proof -
  have a: "0 < next_addr store5"
    by (simp add: store5_simps)
  have b: "4 \<le> card (code ` set (arrays store5 0))"
    by (simp add: store5_simps catalog5_card)
  have c: "hd (fst (generate 0 10 store5)) \<in> set (fst (generate 0 10 store5))"
    by (rule generate5_nonempty) simp
  have d: "distinct (map code (arrays store5 0))"
    by (simp add: store5_simps catalog5_distinct)
  from question_options [OF a b c] a b c d show ?thesis
    by blast
qed

text \<open>
  Claim C4: for every pool whose records have pairwise-distinct codes and whose length is
  at least the requested count, no two Questions of the generated round have the same
  target-country code.
\<close>

theorem targets_without_replacement:
  assumes "distinct (map code (arrays s pool))" and "cnt \<le> length (arrays s pool)"
  shows "distinct (map (\<lambda>q. code (country q)) (fst (generate pool cnt s)))"
  using assms(1) by (rule targets_distinct)

theorem targets_without_replacement_witness:
  "distinct (map code (arrays store5 0)) \<and> 5 \<le> length (arrays store5 0) \<and>
   length (fst (generate 0 5 store5)) = 5 \<and>
   distinct (map (\<lambda>q. code (country q)) (fst (generate 0 5 store5)))"
proof -
  have a: "distinct (map code (arrays store5 0))"
    by (simp add: store5_simps catalog5_distinct)
  have b: "5 \<le> length (arrays store5 0)"
    by (simp add: store5_simps length_catalog5)
  have "length (fst (generate 0 5 store5)) = 5"
    by (simp add: generate_length store5_simps length_catalog5)
  with targets_without_replacement [OF a b] a b show ?thesis
    by blast
qed

subsection \<open>Claims C5 to C8\<close>

text \<open>
  Claim C5, as stated, has every filter other than \<open>null\<close> and \<open>"all"\<close> select the records of
  that continent. For the empty string the pool of the claim is empty on the five-country
  catalog, so \<open>start("")\<close> would have to raise; the code tests \<open>continent && ...\<close>, the
  empty string is falsy, and the start succeeds on the full catalog.
\<close>

theorem start_empty_filter_counterexample:
  "length (spec_filtered_pool (Some []) (arrays store5 (allCountries game5))) < 4 \<and>
   fst (start (Some []) game5 store5) = Inr ()"
proof -
  have "spec_filtered_pool (Some []) (arrays store5 (allCountries game5)) = []"
    by (simp add: spec_filtered_pool_def store5_simps catalog5_def)
  moreover have "fst (start (Some []) game5 store5) = Inr ()"
    by (simp add: start_fst filtered_pool_all store5_simps length_catalog5 OPTIONS_COUNT_def)
  ultimately show ?thesis
    by simp
qed

text \<open>
  Claim C5, amended: \<open>start\<close> raises its error if and only if the filtered pool has fewer
  than four entries, where the filter \<open>null\<close>, the empty string or \<open>"all"\<close> means the full
  catalog and any other filter selects the records whose continent equals it
  (\<open>filtered_pool\<close>). The error carries the pool length and the filter, and leaves the game
  as it was. On success \<open>currentIndex\<close> is 0, \<open>score\<close> is 0, \<open>answered\<close> is false, and
  \<open>questions\<close> is the round \<open>generate\<close> returns for the pool, a new array holding the
  filtered records.
\<close>

theorem start_outcome:
  "(isl (fst (start flt g s)) \<longleftrightarrow> length (filtered_pool flt (arrays s (allCountries g))) < 4) \<and>
   (isl (fst (start flt g s)) \<longrightarrow>
      fst (start flt g s) =
        Inl (Error (length (filtered_pool flt (arrays s (allCountries g)))) flt) \<and>
      fst (snd (start flt g s)) = g) \<and>
   (\<not> isl (fst (start flt g s)) \<longrightarrow>
      currentIndex (fst (snd (start flt g s))) = 0 \<and>
      score (fst (snd (start flt g s))) = 0 \<and>
      answered (fst (snd (start flt g s))) = False \<and>
      questions (fst (snd (start flt g s))) =
        fst (generate (fst (start_pool flt g s)) QUESTIONS_PER_ROUND (snd (start_pool flt g s))) \<and>
      fst (start_pool flt g s) = next_addr s \<and>
      arrays (snd (start_pool flt g s)) (fst (start_pool flt g s)) =
        filtered_pool flt (arrays s (allCountries g)))"
proof (cases "length (filtered_pool flt (arrays s (allCountries g))) < 4")
  case True
  then show ?thesis
    by (simp add: start_fst start_game OPTIONS_COUNT_def)
next
  case False
  then show ?thesis
    by (simp add: start_fst start_game OPTIONS_COUNT_def start_pool_arrays start_pool_fst)
qed

theorem start_outcome_witness:
  "\<not> isl (fst (start None game5 store5)) \<and>
   score (fst (snd (start None game5 store5))) = 0 \<and>
   currentIndex (fst (snd (start None game5 store5))) = 0 \<and>
   isl (fst (start (Some ''Europe'') game5 store5)) \<and>
   fst (start (Some ''Europe'') game5 store5) = Inl (Error 2 (Some ''Europe''))"
proof -
  have "filtered_pool None (arrays store5 (allCountries game5)) = catalog5"
    by (simp add: filtered_pool_all store5_simps)
  moreover have "length (filtered_pool (Some ''Europe'') (arrays store5 (allCountries game5))) = 2"
    by (simp add: filtered_pool_def store5_simps catalog5_def)
  ultimately show ?thesis
    using start_outcome [of None game5 store5] start_outcome [of "Some ''Europe''" game5 store5]
    by (simp add: length_catalog5)
qed

text \<open>
  Claim C6: in a round, with \<open>answered\<close> false and a question remaining, the first of two
  consecutive \<open>submitAnswer\<close> calls returns a result record and the second returns \<open>null\<close>;
  across both calls \<open>score\<close> grows by at most 1.
\<close>

theorem submitAnswer_twice:
  assumes "\<not> answered g" and "currentIndex g < length (questions g)"
  shows "(\<exists>r. fst (submitAnswer c1 g) = Inr (Some r)) \<and>
    fst (submitAnswer c2 (snd (submitAnswer c1 g))) = Inr None \<and>
    snd (submitAnswer c2 (snd (submitAnswer c1 g))) = snd (submitAnswer c1 g) \<and>
    score g \<le> score (snd (submitAnswer c2 (snd (submitAnswer c1 g)))) \<and>
    score (snd (submitAnswer c2 (snd (submitAnswer c1 g)))) \<le> score g + 1"
proof -
  have "answered (snd (submitAnswer c1 g))"
    by (simp add: submitAnswer_in_round [OF assms])
  then have "submitAnswer c2 (snd (submitAnswer c1 g)) = (Inr None, snd (submitAnswer c1 g))"
    by (rule submitAnswer_answered)
  then show ?thesis
    by (simp add: submitAnswer_in_round [OF assms])
qed

theorem submitAnswer_twice_witness:
  "\<not> answered (fst (snd round5)) \<and>
   currentIndex (fst (snd round5)) < length (questions (fst (snd round5))) \<and>
   fst (submitAnswer ''AE'' (snd (submitAnswer ''AD'' (fst (snd round5))))) = Inr None \<and>
   score (snd (submitAnswer ''AE'' (snd (submitAnswer ''AD'' (fst (snd round5)))))) \<le> 1"
proof -
  have a: "\<not> answered (fst (snd round5))"
    by (simp add: round5_game)
  have b: "currentIndex (fst (snd round5)) < length (questions (fst (snd round5)))"
    by (simp add: round5_game)
  from submitAnswer_twice [OF a b, of "''AD''" "''AE''"]
  have "fst (submitAnswer ''AE'' (snd (submitAnswer ''AD'' (fst (snd round5))))) = Inr None"
    and "score (snd (submitAnswer ''AE'' (snd (submitAnswer ''AD'' (fst (snd round5))))))
      \<le> score (fst (snd round5)) + 1"
    by blast+
  with a b show ?thesis
    by (simp add: round5_game)
qed

text \<open>
  Claim C7, as stated, ends with "no other operation ever changes score". After
  \<open>start(null)\<close> on the five-country catalog and the correct answer to the first question
  the score is 1; a second \<open>start(null)\<close> sets it back to 0.
\<close>

theorem start_resets_score_counterexample:
  "score (snd (submitAnswer (correctCode (questions (fst (snd round5)) ! 0)) (fst (snd round5))))
     = 1 \<and>
   score (fst (snd (start None
     (snd (submitAnswer (correctCode (questions (fst (snd round5)) ! 0)) (fst (snd round5))))
     (snd (snd round5))))) = 0"
proof -
  define g where "g = fst (snd round5)"
  define g1 where "g1 = snd (submitAnswer (correctCode (questions g ! 0)) g)"
  have a: "\<not> answered g" and b: "currentIndex g < length (questions g)"
    by (simp_all add: g_def round5_game)
  have g1: "g1 = g\<lparr>answered := True, score := 1\<rparr>"
    unfolding g1_def by (simp add: submitAnswer_in_round [OF a b]) (simp add: g_def round5_game)
  have "allCountries g1 = 0"
    by (simp add: g1 g_def round5_game)
  then have "filtered_pool None (arrays (snd (snd round5)) (allCountries g1)) = catalog5"
    by (simp add: filtered_pool_all round5_store)
  then have "score (fst (snd (start None g1 (snd (snd round5))))) = 0"
    by (simp add: start_game length_catalog5 OPTIONS_COUNT_def)
  moreover have "score g1 = 1"
    by (simp add: g1)
  ultimately show ?thesis
    by (simp add: g1_def g_def)
qed

text \<open>
  Claim C7, amended: in a round, with \<open>answered\<close> false and a current question present,
  \<open>submitAnswer(selectedCode)\<close> sets \<open>answered\<close> to true and returns \<open>{correct, correctCode}\<close>,
  where \<open>correct\<close> is true exactly when \<open>selectedCode\<close> equals the \<open>correctCode\<close> of the
  current Question and \<open>correctCode\<close> is that code; \<open>score\<close> grows by 1 if correct and is
  unchanged otherwise. Every other \<open>submitAnswer\<close> and every \<open>nextQuestion\<close> leave \<open>score\<close>
  as it is; the only other operation that changes it is \<open>start\<close>, which sets it to 0 when
  it succeeds (and leaves it when it raises).
\<close>

theorem submitAnswer_result:
  "(\<not> answered g \<and> currentIndex g < length (questions g) \<longrightarrow>
      submitAnswer selectedCode g =
        (Inr (Some \<lparr>correct = (selectedCode = correctCode (questions g ! currentIndex g)),
                     result_correctCode = correctCode (questions g ! currentIndex g)\<rparr>),
         g\<lparr>answered := True,
           score := (if selectedCode = correctCode (questions g ! currentIndex g)
                     then score g + 1 else score g)\<rparr>)) \<and>
   score (snd (submitAnswer selectedCode g)) =
     (if \<not> answered g \<and> currentIndex g < length (questions g) \<and>
         selectedCode = correctCode (questions g ! currentIndex g)
      then score g + 1 else score g) \<and>
   score (snd (nextQuestion g)) = score g \<and>
   score (fst (snd (start flt g s))) = (if isl (fst (start flt g s)) then score g else 0)"
proof (intro conjI impI)
  assume "\<not> answered g \<and> currentIndex g < length (questions g)"
  then show "submitAnswer selectedCode g =
      (Inr (Some \<lparr>correct = (selectedCode = correctCode (questions g ! currentIndex g)),
                   result_correctCode = correctCode (questions g ! currentIndex g)\<rparr>),
       g\<lparr>answered := True,
         score := (if selectedCode = correctCode (questions g ! currentIndex g)
                   then score g + 1 else score g)\<rparr>)"
    by (simp add: submitAnswer_in_round)
next
  show "score (snd (submitAnswer selectedCode g)) =
     (if \<not> answered g \<and> currentIndex g < length (questions g) \<and>
         selectedCode = correctCode (questions g ! currentIndex g)
      then score g + 1 else score g)"
    by (simp add: submitAnswer_def Let_def isCorrect_def)
next
  show "score (snd (nextQuestion g)) = score g"
    by (simp add: nextQuestion_snd)
next
  show "score (fst (snd (start flt g s))) = (if isl (fst (start flt g s)) then score g else 0)"
    by (simp add: start_fst start_game)
qed

theorem submitAnswer_result_witness:
  "\<not> answered (fst (snd round5)) \<and>
   currentIndex (fst (snd round5)) < length (questions (fst (snd round5))) \<and>
   score (snd (submitAnswer (correctCode (questions (fst (snd round5)) ! 0)) (fst (snd round5))))
     = 1 \<and>
   answered (snd (submitAnswer ''AD'' (fst (snd round5)))) \<and>
   score (snd (submitAnswer ''AE'' (snd (submitAnswer ''AD'' (fst (snd round5)))))) =
     score (snd (submitAnswer ''AD'' (fst (snd round5))))"
proof -
  define g where "g = fst (snd round5)"
  have a: "\<not> answered g \<and> currentIndex g < length (questions g)"
    by (simp add: g_def round5_game)
  have i0: "currentIndex g = 0" and s0: "score g = 0"
    by (simp_all add: g_def round5_game)
  from submitAnswer_result [of g "correctCode (questions g ! 0)" None store5] a
  have "score (snd (submitAnswer (correctCode (questions g ! 0)) g)) = 1"
    by (simp add: i0 s0)
  moreover from submitAnswer_result [of g "''AD''" None store5] a
  have b: "answered (snd (submitAnswer ''AD'' g))"
    by simp
  moreover from submitAnswer_result [of "snd (submitAnswer ''AD'' g)" "''AE''" None store5] b
  have "score (snd (submitAnswer ''AE'' (snd (submitAnswer ''AD'' g)))) =
      score (snd (submitAnswer ''AD'' g))"
    by simp
  ultimately show ?thesis
    using a unfolding g_def by blast
qed

text \<open>
  Claim C8: \<open>nextQuestion\<close> adds exactly 1 to \<open>currentIndex\<close>, sets \<open>answered\<close> to false and
  returns true if and only if the new \<open>currentIndex\<close> is less than \<open>questions.length\<close>. After
  a successful \<open>start\<close> and exactly \<open>totalQuestions\<close> calls of \<open>nextQuestion\<close>,
  \<open>currentQuestion\<close> is \<open>null\<close>.
\<close>

theorem nextQuestion_advances:
  "nextQuestion g =
     (currentIndex g + 1 < length (questions g),
      g\<lparr>currentIndex := currentIndex g + 1, answered := False\<rparr>) \<and>
   (fst (start flt g0 s) = Inr () \<longrightarrow>
      currentQuestion
        (nextQuestions (totalQuestions (fst (snd (start flt g0 s)))) (fst (snd (start flt g0 s))))
      = None)"
proof (intro conjI impI)
  show "nextQuestion g =
     (currentIndex g + 1 < length (questions g),
      g\<lparr>currentIndex := currentIndex g + 1, answered := False\<rparr>)"
    by (auto simp: nextQuestion_def Let_def isGameOver_def)
next
  assume "fst (start flt g0 s) = Inr ()"
  show "currentQuestion
      (nextQuestions (totalQuestions (fst (snd (start flt g0 s)))) (fst (snd (start flt g0 s))))
    = None"
    by (simp add: currentQuestion_def totalQuestions_def nextQuestions_currentIndex
        nextQuestions_questions)
qed

theorem nextQuestion_advances_witness:
  "fst (start None game5 store5) = Inr () \<and>
   totalQuestions (fst (snd (start None game5 store5))) = 5 \<and>
   currentQuestion (nextQuestions 5 (fst (snd (start None game5 store5)))) = None \<and>
   fst (nextQuestion (fst (snd (start None game5 store5)))) = True"
proof -
  have a: "fst (start None game5 store5) = Inr ()"
    using round5_ok by (simp add: round5_def)
  have b: "totalQuestions (fst (snd (start None game5 store5))) = 5"
    using round5_game(4) by (simp add: round5_def totalQuestions_def)
  have c: "currentIndex (fst (snd (start None game5 store5))) = 0"
    using round5_game(1) by (simp add: round5_def)
  from nextQuestion_advances [of "fst (snd (start None game5 store5))" None game5 store5] a b c
  show ?thesis
    by (simp add: totalQuestions_def)
qed

subsection \<open>Claims C9 and C10\<close>

lemma set_values_set: "set (set_values seen xs) = set seen \<union> set xs"
  by (induction xs arbitrary: seen) auto

lemma set_values_distinct: "distinct seen \<Longrightarrow> distinct (set_values seen xs)"
  by (induction xs arbitrary: seen) auto

text \<open>
  Claim C9: \<open>continents\<close> returns exactly the continent labels that occur in the catalog,
  without \<open>"Antarctica"\<close>, in ascending lexicographic order and without duplicates.
\<close>

theorem continents_sorted_distinct:
  "set (continents g s) = continent ` set (arrays s (allCountries g)) - {''Antarctica''} \<and>
   sorted (continents g s) \<and> distinct (continents g s)"
proof (intro conjI)
  show "set (continents g s) = continent ` set (arrays s (allCountries g)) - {''Antarctica''}"
    by (auto simp: continents_def set_values_set)
next
  show "sorted (continents g s)"
    by (simp add: continents_def)
next
  have "distinct (set_values [] (map continent (arrays s (allCountries g))))"
    by (rule set_values_distinct) simp
  then show "distinct (continents g s)"
    by (simp add: continents_def)
qed

lemma call_step_frame:
  assumes "a < next_addr s"
  shows "arrays (snd (call_step (g, s) c)) a = arrays s a"
    and "next_addr s \<le> next_addr (snd (call_step (g, s) c))"
    and "allCountries (fst (call_step (g, s) c)) = allCountries g"
proof -
  show "arrays (snd (call_step (g, s) c)) a = arrays s a"
    using assms by (cases c) (simp_all add: start_frame generate_frame)
  show "next_addr s \<le> next_addr (snd (call_step (g, s) c))"
    by (cases c) (simp_all add: start_next_addr generate_next_addr)
  show "allCountries (fst (call_step (g, s) c)) = allCountries g"
    by (cases c) (simp_all add: start_allCountries)
qed

lemma run_calls_frame:
  assumes "a < next_addr s"
  shows "arrays (snd (run_calls cs (g, s))) a = arrays s a \<and>
    allCountries (fst (run_calls cs (g, s))) = allCountries g"
  using assms
proof (induction cs arbitrary: g s)
  case Nil
  show ?case by (simp add: run_calls_def)
next
  case (Cons c cs)
  obtain g1 s1 where step: "call_step (g, s) c = (g1, s1)"
    by (cases "call_step (g, s) c")
  from call_step_frame [OF Cons.prems, of g c]
  have same: "arrays s1 a = arrays s a" and le: "next_addr s \<le> next_addr s1"
    and cat: "allCountries g1 = allCountries g"
    by (simp_all add: step)
  from Cons.prems le have "a < next_addr s1"
    by simp
  then have "arrays (snd (run_calls cs (g1, s1))) a = arrays s1 a \<and>
      allCountries (fst (run_calls cs (g1, s1))) = allCountries g1"
    by (rule Cons.IH)
  moreover have "run_calls (c # cs) (g, s) = run_calls cs (g1, s1)"
    by (simp add: run_calls_def step)
  ultimately show ?case
    by (simp add: same cat)
qed

text \<open>
  Claim C10: neither \<open>generate\<close> nor \<open>start\<close> writes to an array that existed before the
  call, in particular not to the catalog \<open>allCountries\<close> and not to the pool passed in: every
  such array holds the same elements afterwards, also after any sequence of \<open>start\<close> and
  \<open>generate\<close> calls, and the game still refers to the same catalog.
\<close>

theorem catalog_unchanged:
  assumes "a < next_addr s"
  shows "arrays (snd (generate pool cnt s)) a = arrays s a \<and>
    arrays (snd (snd (start flt g s))) a = arrays s a \<and>
    allCountries (fst (snd (start flt g s))) = allCountries g \<and>
    arrays (snd (run_calls cs (g, s))) a = arrays s a \<and>
    allCountries (fst (run_calls cs (g, s))) = allCountries g"
  using assms generate_frame start_frame run_calls_frame
  by (simp add: start_allCountries)

lemma shuffle_in_place:
  "shuffle 0 \<lparr>arrays = (\<lambda>_. [])(0 := [x, y]), next_addr = 1, rnd = (\<lambda>n. 0), pos = 0\<rparr> =
     (0, \<lparr>arrays = (\<lambda>_. [])(0 := [y, x]), next_addr = 1, rnd = (\<lambda>n. 0), pos = 1\<rparr>)"
  by (simp add: shuffle_def random_below_def)

theorem catalog_unchanged_witness:
  "allCountries game5 < next_addr store5 \<and>
   arrays (snd (generate (allCountries game5) 10 store5)) (allCountries game5) = catalog5 \<and>
   arrays (snd (snd (start (Some ''all'') game5 store5))) (allCountries game5) = catalog5 \<and>
   arrays (snd (run_calls [Start None, Generate 0 3, Start (Some ''Europe''), Start (Some ''Asia'')]
     (game5, store5))) (allCountries game5) = catalog5"
proof -
  have a: "allCountries game5 < next_addr store5"
    by (simp add: store5_simps)
  from catalog_unchanged [OF a] a show ?thesis
    by (simp add: store5_simps)
qed

end
